theory Spec2Isabelle
  imports Main "HOL-Library.List_Lexorder" "HOL-Library.Multiset"
begin

section \<open>Python strings\<close>

text \<open>
  A Python \<open>str\<close> is a sequence of Unicode code points, so a string is a list of
  naturals; \<open>py\<close> turns a literal of the theory into such a string.
\<close>

type_synonym codepoint = nat
type_synonym pystr = "codepoint list"

definition py :: "string \<Rightarrow> pystr" where
  "py s = map of_char s"

text \<open>
  The characters that \<open>str.strip()\<close> removes and that \<open>\s\<close> matches in a \<open>str\<close> pattern
  (both use the interpreter's whitespace test): bidirectional class WS, B or S, or
  general category Zs.
\<close>

definition is_space :: "codepoint \<Rightarrow> bool" where
  "is_space c \<longleftrightarrow>
     (0x09 \<le> c \<and> c \<le> 0x0D) \<or> (0x1C \<le> c \<and> c \<le> 0x20) \<or> c = 0x85 \<or> c = 0xA0 \<or>
     c = 0x1680 \<or> (0x2000 \<le> c \<and> c \<le> 0x200A) \<or> c = 0x2028 \<or> c = 0x2029 \<or>
     c = 0x202F \<or> c = 0x205F \<or> c = 0x3000"

text \<open>
  \<open>\w\<close> in a \<open>str\<close> pattern matches the underscore and every alphanumeric code point.
  Below 128 these are the ASCII letters and digits; above, the answer comes from the
  interpreter's Unicode database, which is no part of the repository: it is the
  parameter \<open>tbl\<close> of everything that matches a pattern.
\<close>

type_synonym unicode_tbl = "codepoint \<Rightarrow> bool"

definition ascii_alnum :: "codepoint \<Rightarrow> bool" where
  "ascii_alnum c \<longleftrightarrow> (48 \<le> c \<and> c \<le> 57) \<or> (65 \<le> c \<and> c \<le> 90) \<or> (97 \<le> c \<and> c \<le> 122)"

definition is_word :: "unicode_tbl \<Rightarrow> codepoint \<Rightarrow> bool" where
  "is_word tbl c = (if c < 128 then ascii_alnum c \<or> c = 95 else tbl c)"

text \<open>\<open>line.strip()\<close>: whitespace is removed at both ends.\<close>

definition strip :: "pystr \<Rightarrow> pystr" where
  "strip s = rev (dropWhile is_space (rev (dropWhile is_space s)))"

text \<open>\<open>s.startswith(p)\<close> and \<open>s.endswith(p)\<close>.\<close>

fun startswith :: "pystr \<Rightarrow> pystr \<Rightarrow> bool" where
  "startswith s [] = True"
| "startswith [] (p # ps) = False"
| "startswith (c # cs) (p # ps) = (c = p \<and> startswith cs ps)"

definition endswith :: "pystr \<Rightarrow> pystr \<Rightarrow> bool" where
  "endswith s p = startswith (rev s) (rev p)"

text \<open>\<open>sub in s\<close>: the substring test.\<close>

fun contains :: "pystr \<Rightarrow> pystr \<Rightarrow> bool" where
  "contains sub [] = (sub = [])"
| "contains sub (c # cs) = (startswith (c # cs) sub \<or> contains sub cs)"

text \<open>\<open>content.split('\n')\<close>: the pieces between line feeds, at least one.\<close>

fun split_nl :: "pystr \<Rightarrow> pystr list" where
  "split_nl [] = [[]]"
| "split_nl (c # cs) =
     (if c = 10 then [] # split_nl cs
      else (case split_nl cs of [] \<Rightarrow> [[c]] | l # ls \<Rightarrow> (c # l) # ls))"

text \<open>\<open>str(n)\<close> for a line number: its decimal digits.\<close>

fun str_nat :: "nat \<Rightarrow> pystr" where
  "str_nat n = (if n < 10 then [48 + n] else str_nat (n div 10) @ [48 + n mod 10])"

declare str_nat.simps [simp del]

section \<open>The regular expressions of the scanner\<close>

text \<open>
  \<open>re.sub(r'"[^"]*"', '""', stripped)\<close>: from left to right, every span from a
  double quote (code point 34) to the next one becomes two double quotes. A quote
  with no quote after it starts no match and is copied.
\<close>

function mask_strings :: "pystr \<Rightarrow> pystr" where
  "mask_strings [] = []"
| "mask_strings (c # cs) =
     (if c = 34 then
        (case dropWhile (\<lambda>x. x \<noteq> 34) cs of
           [] \<Rightarrow> c # mask_strings cs
         | q # rest \<Rightarrow> 34 # 34 # mask_strings rest)
      else c # mask_strings cs)"
  by pat_completeness auto
termination
proof (relation "measure length")
  fix c q :: codepoint and cs rest :: pystr
  assume "dropWhile (\<lambda>x. x \<noteq> 34) cs = q # rest"
  then have "length (q # rest) \<le> length cs"
    by (metis length_dropWhile_le)
  then show "(rest, c # cs) \<in> measure length" by simp
qed simp_all

text \<open>
  The patterns use four kinds of items: a literal character, \<open>\s\<close>, \<open>\s*\<close> and \<open>\w\<close>.
  \<open>re_match\<close> is \<open>re.match(p, s) is not None\<close>: some prefix of \<open>s\<close> matches the whole
  pattern (the leading \<open>^\<close> of each pattern is implied by \<open>re.match\<close>); \<open>\s*\<close> may take
  any number of whitespace characters.
\<close>

datatype item = Lit codepoint | Ws | WsStar | WordCh

definition lit :: "string \<Rightarrow> item list" where
  "lit s = map (\<lambda>c. Lit (of_char c)) s"

fun re_match :: "unicode_tbl \<Rightarrow> item list \<Rightarrow> pystr \<Rightarrow> bool" where
  "re_match tbl [] s = True"
| "re_match tbl (Lit c # p) [] = False"
| "re_match tbl (Lit c # p) (x # xs) = (x = c \<and> re_match tbl p xs)"
| "re_match tbl (Ws # p) [] = False"
| "re_match tbl (Ws # p) (x # xs) = (is_space x \<and> re_match tbl p xs)"
| "re_match tbl (WordCh # p) [] = False"
| "re_match tbl (WordCh # p) (x # xs) = (is_word tbl x \<and> re_match tbl p xs)"
| "re_match tbl (WsStar # p) [] = re_match tbl p []"
| "re_match tbl (WsStar # p) (x # xs) =
     ((is_space x \<and> re_match tbl (WsStar # p) xs) \<or> re_match tbl p (x # xs))"

definition exec_patterns :: "item list list" where
  "exec_patterns =
    [lit ''print'' @ [WsStar] @ lit ''('',
     lit ''debugPrint'' @ [WsStar] @ lit ''('',
     lit ''Task'' @ [WsStar] @ lit ''{'',
     lit ''Task.'' @ [WordCh],
     lit ''if'' @ [Ws],
     lit ''guard'' @ [Ws],
     lit ''switch'' @ [Ws],
     lit ''for'' @ [Ws],
     lit ''while'' @ [Ws],
     lit ''repeat'' @ [Ws],
     lit ''do'' @ [WsStar] @ lit ''{'',
     lit ''return'' @ [Ws],
     lit ''try'' @ [Ws],
     lit ''await'' @ [Ws],
     lit ''fatalError'' @ [WsStar] @ lit ''('',
     lit ''precondition'' @ [WsStar] @ lit ''('',
     lit ''assert'' @ [WsStar] @ lit ''('']"

text \<open>\<open>any(re.match(p, stripped) for p in exec_patterns)\<close>\<close>

definition is_exec :: "unicode_tbl \<Rightarrow> pystr \<Rightarrow> bool" where
  "is_exec tbl s = list_ex (\<lambda>p. re_match tbl p s) exec_patterns"

section \<open>The scan of one file\<close>

text \<open>
  The variables of the loop over the lines of a file. \<open>examined\<close> is a ghost variable,
  with no counterpart in the script: the numbers of the lines that reached the
  computation of \<open>is_exec\<close>, in order.
\<close>

record scan_state =
  brace_depth :: int
  issues :: "(nat \<times> pystr) list"
  in_multiline_comment :: bool
  examined :: "nat list"

definition init_state :: scan_state where
  "init_state = \<lparr>brace_depth = 0, issues = [], in_multiline_comment = False, examined = []\<rparr>"

text \<open>One iteration of the loop, on line number \<open>i\<close> with text \<open>line\<close>.\<close>

definition scan_line :: "unicode_tbl \<Rightarrow> scan_state \<Rightarrow> nat \<times> pystr \<Rightarrow> scan_state" where
  "scan_line tbl st il =
     (let i = fst il;
          stripped = strip (snd il);
          st1 = (if contains (py ''/*'') stripped \<and> \<not> in_multiline_comment st
                 then st\<lparr>in_multiline_comment := True\<rparr> else st)
      in if contains (py ''*/'') stripped then st1\<lparr>in_multiline_comment := False\<rparr>
         else if in_multiline_comment st1 then st1
         else if startswith stripped (py ''//'') then st1
         else if stripped = [] then st1
         else
           let code_line = mask_strings stripped;
               opens = count_list code_line 123;
               closes = count_list code_line 125;
               st2 = (if brace_depth st1 = 0
                      then (let is_ex = is_exec tbl stripped;
                                st' = st1\<lparr>examined := examined st1 @ [i]\<rparr>
                            in if is_ex then st'\<lparr>issues := issues st' @ [(i, take 120 stripped)]\<rparr>
                               else st')
                      else st1)
           in st2\<lparr>brace_depth := brace_depth st2 + (int opens - int closes)\<rparr>)"

text \<open>\<open>for i, line in enumerate(lines, 1)\<close>, from the state a file starts in.\<close>

fun scan_from :: "unicode_tbl \<Rightarrow> nat \<Rightarrow> scan_state \<Rightarrow> pystr list \<Rightarrow> scan_state" where
  "scan_from tbl i st [] = st"
| "scan_from tbl i st (l # ls) = scan_from tbl (Suc i) (scan_line tbl st (i, l)) ls"

definition scan_lines :: "unicode_tbl \<Rightarrow> pystr list \<Rightarrow> scan_state" where
  "scan_lines tbl ls = scan_from tbl 1 init_state ls"

definition scan_content :: "unicode_tbl \<Rightarrow> pystr \<Rightarrow> scan_state" where
  "scan_content tbl content = scan_lines tbl (split_nl content)"

text \<open>
  The path condition of the statement \<open>is_exec = any(...)\<close>: no \<open>continue\<close> was taken
  on the line and \<open>brace_depth == 0\<close> held.
\<close>

definition consumed :: "scan_state \<Rightarrow> pystr \<Rightarrow> bool" where
  "consumed st line =
     (let s = strip line
      in contains (py ''*/'') s \<or> in_multiline_comment st \<or> contains (py ''/*'') s \<or>
         startswith s (py ''//'') \<or> s = [])"

definition reaches_match :: "scan_state \<Rightarrow> pystr \<Rightarrow> bool" where
  "reaches_match st line = (\<not> consumed st line \<and> brace_depth st = 0)"

definition classify_masked :: "unicode_tbl \<Rightarrow> pystr \<Rightarrow> bool" where
  \<comment> \<open>The specification's step 8: the trimmed, string-masked line goes to the matcher.\<close>
  "classify_masked tbl line = is_exec tbl (mask_strings (strip line))"

section \<open>The run of the script\<close>

text \<open>
  What the directory walk sees below the root: an entry that is no directory, a
  directory with its entries in the order the system lists them, or a directory that
  yields nothing (\<open>Unreadable\<close>: its listing raises \<open>OSError\<close>, which \<open>os.walk\<close>
  called without \<open>onerror\<close> ignores; as the root, also a path that does not exist).
\<close>

datatype fnode = File | Unreadable | Directory "(pystr \<times> fnode) list"

fun is_dir :: "fnode \<Rightarrow> bool" where
  "is_dir File = False"
| "is_dir Unreadable = True"
| "is_dir (Directory es) = True"

text \<open>\<open>os.path.join(a, b)\<close> on a POSIX system.\<close>

definition path_join :: "pystr \<Rightarrow> pystr \<Rightarrow> pystr" where
  "path_join a b =
     (if startswith b (py ''/'') then b
      else if a = [] \<or> endswith a (py ''/'') then a @ b
      else a @ py ''/'' @ b)"

text \<open>
  \<open>os.walk(dir)\<close>, top down: the triples \<open>(root, dirs, files)\<close> it yields. A path whose
  listing fails yields nothing.
\<close>

fun walk :: "pystr \<Rightarrow> fnode \<Rightarrow> (pystr \<times> pystr list \<times> pystr list) list" where
  "walk dir File = []"
| "walk dir Unreadable = []"
| "walk dir (Directory es) =
     (dir, map fst (filter (\<lambda>e. is_dir (snd e)) es), map fst (filter (\<lambda>e. \<not> is_dir (snd e)) es))
     # concat (map (\<lambda>e. if is_dir (snd e) then walk (path_join dir (fst e)) (snd e) else []) es)"

definition src_dir :: pystr where
  "src_dir = py ''weather/Sources''"

text \<open>The list \<open>swift_files\<close> after the discovery loop.\<close>

definition swift_files :: "fnode \<Rightarrow> pystr list" where
  "swift_files root =
     concat (map (\<lambda>(r, dirs, files). map (path_join r) (filter (\<lambda>f. endswith f (py ''.swift'')) files))
                 (walk src_dir root))"

text \<open>The same loop, started at any directory path.\<close>

definition discovered :: "pystr \<Rightarrow> fnode \<Rightarrow> pystr list" where
  "discovered dir node =
     concat (map (\<lambda>(r, dirs, files). map (path_join r) (filter (\<lambda>f. endswith f (py ''.swift'')) files))
                 (walk dir node))"

text \<open>What one entry of a directory adds to the paths discovered from that directory.\<close>

definition contrib :: "pystr \<Rightarrow> pystr \<times> fnode \<Rightarrow> pystr multiset" where
  "contrib dir e =
     (if is_dir (snd e) then mset (discovered (path_join dir (fst e)) (snd e))
      else if endswith (fst e) (py ''.swift'') then {#path_join dir (fst e)#} else {#})"

text \<open>
  What \<open>open(filepath)\<close> and \<open>fh.read()\<close> can raise; the file system gives each path
  its decoded content or an error.
\<close>

datatype py_error = OSError | UnicodeDecodeError

text \<open>Standard output is the text written so far; \<open>print(s)\<close> appends \<open>s\<close> and a line feed.\<close>

definition print :: "pystr \<Rightarrow> pystr \<Rightarrow> pystr" where
  "print out s = out @ s @ [10]"

text \<open>The \<open>if issues:\<close> block at the end of a file's iteration.\<close>

definition report_file :: "pystr \<Rightarrow> pystr \<Rightarrow> (nat \<times> pystr) list \<Rightarrow> pystr" where
  "report_file out filepath iss =
     (if iss \<noteq> [] then
        fold (\<lambda>(line_no, text) acc. print acc (py ''  Line '' @ str_nat line_no @ py '': '' @ text)) iss
          (print out (py ''*** ISSUES IN: '' @ filepath @ py '' ***''))
      else out)"

text \<open>
  A run ends normally with its output, or with an uncaught exception after the output
  printed before it.
\<close>

datatype run = Completed pystr | Aborted pystr py_error

fun file_loop :: "unicode_tbl \<Rightarrow> (pystr \<Rightarrow> py_error + pystr) \<Rightarrow> pystr \<Rightarrow> pystr list \<Rightarrow> run" where
  "file_loop tbl rd out [] = Completed out"
| "file_loop tbl rd out (filepath # rest) =
     (case rd filepath of
        Inl e \<Rightarrow> Aborted out e
      | Inr content \<Rightarrow>
          file_loop tbl rd (report_file out filepath (issues (scan_content tbl content))) rest)"

definition script :: "unicode_tbl \<Rightarrow> fnode \<Rightarrow> (pystr \<Rightarrow> py_error + pystr) \<Rightarrow> run" where
  "script tbl root rd =
     (case file_loop tbl rd [] (sort (swift_files root)) of
        Aborted out e \<Rightarrow> Aborted out e
      | Completed out \<Rightarrow> Completed (print out (py ''\<newline>--- Script complete ---'')))"

section \<open>The report format of the specification\<close>

definition header_line :: "pystr \<Rightarrow> pystr" where
  "header_line path = py ''*** ISSUES IN: '' @ path @ py '' ***''"

definition issue_line :: "nat \<times> pystr \<Rightarrow> pystr" where
  "issue_line iss = py ''  Line '' @ str_nat (fst iss) @ py '': '' @ snd iss"

definition file_block :: "pystr \<Rightarrow> (nat \<times> pystr) list \<Rightarrow> pystr" where
  "file_block path iss = concat (map (\<lambda>l. l @ [10]) (header_line path # map issue_line iss))"

definition marker_line :: pystr where
  "marker_line = py ''--- Script complete ---''"

text \<open>Two trees that differ only in the order in which directories list their entries.\<close>

inductive same_tree :: "fnode \<Rightarrow> fnode \<Rightarrow> bool" where
  same_File: "same_tree File File"
| same_Unreadable: "same_tree Unreadable Unreadable"
| same_Directory:
    "list_all2 (\<lambda>a b. fst a = fst b \<and> same_tree (snd a) (snd b)) es es'' \<Longrightarrow> mset es'' = mset es'
     \<Longrightarrow> same_tree (Directory es) (Directory es')"

section \<open>Inputs of the examples\<close>

text \<open>
  The closed examples run on ASCII text, where the Unicode table is never consulted;
  \<open>no_tbl\<close> stands for it there.
\<close>

definition no_tbl :: unicode_tbl where
  "no_tbl c = False"

definition scenario :: pystr where
  "scenario = py ''import Module\<newline>struct Foo {\<newline>    func bar() {\<newline>        print(\"inside\")\<newline>    }\<newline>}\<newline>print(\"top level\")''"

definition scenario_lines :: "pystr list" where
  "scenario_lines =
     [py ''import Module'', py ''struct Foo {'', py ''func bar() {'', py ''print(\"inside\")'',
      py ''}'', py ''}'', py ''print(\"top level\")'']"

definition brace_string_line :: pystr where
  "brace_string_line = py ''let s = \"{\"''"

definition close_token_line :: pystr where
  "close_token_line = py ''print(\"*/\")''"

definition trailing_comment_line :: pystr where
  "trailing_comment_line = py ''let x = 1 // {''"

definition note_line :: pystr where
  "note_line = py ''struct Foo { /* note */''"

definition unbalanced_lines :: "pystr list" where
  "unbalanced_lines = [py ''}'', py ''print(\"x\")'', py ''{'', py ''print(\"y\")'']"

definition nothing_opens :: "pystr \<Rightarrow> py_error + pystr" where
  "nothing_opens path = Inl OSError"

definition every_file_prints :: "pystr \<Rightarrow> py_error + pystr" where
  "every_file_prints path = Inr (py ''print(1)'')"

definition tree_a :: fnode where
  "tree_a = Directory [(py ''b.swift'', File),
                       (py ''sub'', Directory [(py ''a.swift'', File), (py ''notes.txt'', File)]),
                       (py ''a.swift'', File)]"

definition tree_b :: fnode where
  "tree_b = Directory [(py ''a.swift'', File),
                       (py ''sub'', Directory [(py ''notes.txt'', File), (py ''a.swift'', File)]),
                       (py ''b.swift'', File)]"

section \<open>Strings\<close>

lemma str_nat_digit: "n < 10 \<Longrightarrow> str_nat n = [48 + n]"
  by (simp add: str_nat.simps [of n])

lemma startswith_iff: "startswith s p \<longleftrightarrow> (\<exists>b. s = p @ b)"
  by (induction s p rule: startswith.induct) auto

lemma contains_iff: "contains sub s \<longleftrightarrow> (\<exists>a b. s = a @ sub @ b)"
proof (induction s)
  case Nil
  show ?case by auto
next
  case (Cons c cs)
  show ?case
  proof
    assume "contains sub (c # cs)"
    then consider "startswith (c # cs) sub" | "contains sub cs" by auto
    then show "\<exists>a b. c # cs = a @ sub @ b"
    proof cases
      case 1
      then obtain b where "c # cs = [] @ sub @ b" by (auto simp: startswith_iff)
      then show ?thesis by blast
    next
      case 2
      then obtain a b where "cs = a @ sub @ b" using Cons.IH by auto
      then have "c # cs = (c # a) @ sub @ b" by simp
      then show ?thesis by blast
    qed
  next
    assume "\<exists>a b. c # cs = a @ sub @ b"
    then obtain a b where ab: "c # cs = a @ sub @ b" by auto
    show "contains sub (c # cs)"
    proof (cases a)
      case Nil
      with ab have "startswith (c # cs) sub" by (auto simp: startswith_iff)
      then show ?thesis by simp
    next
      case (Cons x a')
      with ab have "cs = a' @ sub @ b" by simp
      then have "contains sub cs" using Cons.IH by auto
      then show ?thesis by simp
    qed
  qed
qed

lemma contains_rev: "contains (rev sub) (rev s) = contains sub s"
proof -
  have "(\<exists>a b. rev s = a @ rev sub @ b) \<longleftrightarrow> (\<exists>a b. s = a @ sub @ b)"
  proof
    assume "\<exists>a b. rev s = a @ rev sub @ b"
    then obtain a b where "rev s = a @ rev sub @ b" by auto
    then have "rev (rev s) = rev (a @ rev sub @ b)" by simp
    then have "s = rev b @ sub @ rev a" by simp
    then show "\<exists>a b. s = a @ sub @ b" by blast
  next
    assume "\<exists>a b. s = a @ sub @ b"
    then obtain a b where "s = a @ sub @ b" by auto
    then have "rev s = rev b @ rev sub @ rev a" by simp
    then show "\<exists>a b. rev s = a @ rev sub @ b" by blast
  qed
  then show ?thesis by (simp add: contains_iff)
qed

lemma contains_dropWhile:
  "sub \<noteq> [] \<Longrightarrow> \<not> P (hd sub) \<Longrightarrow> contains sub (dropWhile P s) = contains sub s"
proof (induction s)
  case Nil
  show ?case by simp
next
  case (Cons c cs)
  from Cons.prems obtain x xs where sub: "sub = x # xs" and x: "\<not> P x"
    by (cases sub) auto
  show ?case
  proof (cases "P c")
    case True
    with x have "c \<noteq> x" by auto
    then have "\<not> startswith (c # cs) sub" by (simp add: sub)
    with True Cons show ?thesis by simp
  next
    case False
    then show ?thesis by simp
  qed
qed

lemma contains_strip:
  assumes "sub \<noteq> []" and "\<not> is_space (hd sub)" and "\<not> is_space (last sub)"
  shows "contains sub (strip s) = contains sub s"
proof -
  let ?inner = "dropWhile is_space s"
  have "contains sub (strip s) = contains (rev sub) (dropWhile is_space (rev ?inner))"
    using contains_rev[of sub "rev (dropWhile is_space (rev ?inner))"] by (simp add: strip_def)
  also have "\<dots> = contains (rev sub) (rev ?inner)"
    using assms by (intro contains_dropWhile) (simp_all add: hd_rev)
  also have "\<dots> = contains sub ?inner" by (rule contains_rev)
  also have "\<dots> = contains sub s" using assms by (intro contains_dropWhile)
  finally show ?thesis .
qed

lemma close_token_strip: "contains (py ''*/'') (strip s) = contains (py ''*/'') s"
  by (rule contains_strip) (simp_all add: py_def is_space_def)

lemma open_token_strip: "contains (py ''/*'') (strip s) = contains (py ''/*'') s"
  by (rule contains_strip) (simp_all add: py_def is_space_def)

section \<open>String masking\<close>

lemma count_split_quote:
  "count_list cs 34 =
     count_list (takeWhile (\<lambda>x. x \<noteq> 34) cs) 34 + count_list (dropWhile (\<lambda>x. x \<noteq> (34::nat)) cs) 34"
  by (metis count_list_append takeWhile_dropWhile_id)

lemma count_takeWhile_quote: "count_list (takeWhile (\<lambda>x. x \<noteq> 34) cs) (34::nat) = 0"
  by (induction cs) auto

lemma mask_strings_append:
  "even (count_list a 34) \<Longrightarrow> mask_strings (a @ s) = mask_strings a @ mask_strings s"
proof (induction a rule: mask_strings.induct)
  case 1
  show ?case by simp
next
  case (2 c cs)
  show ?case
  proof (cases "c = 34")
    case False
    with 2 show ?thesis by simp
  next
    case True
    with 2(4) have odd: "odd (count_list cs 34)" by simp
    have "dropWhile (\<lambda>x. x \<noteq> 34) cs \<noteq> []"
    proof
      assume e: "dropWhile (\<lambda>x. x \<noteq> 34) cs = []"
      have "count_list cs 34 = 0"
        unfolding count_split_quote[of cs] count_takeWhile_quote e by simp
      with odd show False by simp
    qed
    then obtain q rest where d: "dropWhile (\<lambda>x. x \<noteq> 34) cs = q # rest"
      by (cases "dropWhile (\<lambda>x. x \<noteq> 34) cs") auto
    then have q: "q = 34" using hd_dropWhile[of "\<lambda>x. x \<noteq> 34" cs] by auto
    have "count_list cs 34 = Suc (count_list rest 34)"
      using count_split_quote[of cs] count_takeWhile_quote[of cs] d q by simp
    with odd have ev: "even (count_list rest 34)" by simp
    have "34 \<in> set cs" using d q by (metis list.set_intros(1) set_dropWhileD)
    then have "dropWhile (\<lambda>x. x \<noteq> 34) (cs @ s) = q # rest @ s"
      using d by (simp add: dropWhile_append1)
    then show ?thesis using True d 2(2)[OF True d ev] by simp
  qed
qed

lemma mask_strings_span:
  assumes "34 \<notin> set body"
  shows "mask_strings (34 # body @ 34 # b) = 34 # 34 # mask_strings b"
proof -
  from assms have "dropWhile (\<lambda>x. x \<noteq> 34) (body @ 34 # b) = 34 # b"
    by (induction body) auto
  then show ?thesis by simp
qed

lemma takeWhile_mask_strings:
  "takeWhile (\<lambda>x. x \<noteq> 34) (mask_strings s) = takeWhile (\<lambda>x. x \<noteq> 34) s"
  by (induction s rule: mask_strings.induct) (auto split: list.splits)

section \<open>Pattern matching\<close>

lemma not_space_quote: "\<not> is_space 34"
  by (simp add: is_space_def)

lemma not_word_quote: "\<not> is_word tbl 34"
  by (simp add: is_word_def ascii_alnum_def)

lemma re_match_upto_quote:
  "list_all (\<lambda>it. it \<noteq> Lit 34) p \<Longrightarrow>
   re_match tbl p s = re_match tbl p (takeWhile (\<lambda>x. x \<noteq> 34) s)"
  by (induction tbl p s rule: re_match.induct) (auto simp: not_space_quote not_word_quote)

lemma exec_patterns_quote_free: "list_all (list_all (\<lambda>it. it \<noteq> Lit 34)) exec_patterns"
  by (simp add: exec_patterns_def lit_def)

lemma is_exec_mask_strings: "is_exec tbl (mask_strings s) = is_exec tbl s"
  unfolding is_exec_def list_ex_iff
  using exec_patterns_quote_free re_match_upto_quote[of _ tbl s]
    re_match_upto_quote[of _ tbl "mask_strings s"]
  by (auto simp: list_all_iff takeWhile_mask_strings)

section \<open>The loop over the lines\<close>

lemma scan_from_append:
  "scan_from tbl i st (xs @ ys) = scan_from tbl (i + length xs) (scan_from tbl i st xs) ys"
  by (induction xs arbitrary: i st) auto

lemma scan_lines_snoc:
  "scan_lines tbl (xs @ [l]) = scan_line tbl (scan_lines tbl xs) (Suc (length xs), l)"
  by (simp add: scan_lines_def scan_from_append)

lemma examined_scan_line:
  "examined (scan_line tbl st (i, l)) = examined st @ (if reaches_match st l then [i] else [])"
  by (simp add: scan_line_def reaches_match_def consumed_def Let_def)

lemma issues_scan_line:
  "issues (scan_line tbl st (i, l)) =
     issues st @ (if reaches_match st l \<and> is_exec tbl (strip l) then [(i, take 120 (strip l))] else [])"
  by (simp add: scan_line_def reaches_match_def consumed_def Let_def)

lemma depth_scan_line:
  "brace_depth (scan_line tbl st (i, l)) =
     brace_depth st + (if consumed st l then 0
        else int (count_list (mask_strings (strip l)) 123) - int (count_list (mask_strings (strip l)) 125))"
  by (simp add: scan_line_def consumed_def Let_def)

lemma scan_trace_snoc:
  assumes P: "\<And>k. k < length xs \<Longrightarrow> P (xs @ [l]) k = P xs k"
      and h: "\<And>k. k < length xs \<Longrightarrow> h (xs @ [l]) k = h xs k"
  shows "map (h (xs @ [l])) (filter (P (xs @ [l])) [0..<length (xs @ [l])]) =
         map (h xs) (filter (P xs) [0..<length xs]) @
           (if P (xs @ [l]) (length xs) then [h (xs @ [l]) (length xs)] else [])"
proof -
  have "filter (P (xs @ [l])) [0..<length xs] = filter (P xs) [0..<length xs]"
    by (rule filter_cong) (auto simp: P)
  moreover have "map (h (xs @ [l])) (filter (P xs) [0..<length xs]) = map (h xs) (filter (P xs) [0..<length xs])"
    by (rule map_cong) (auto simp: h)
  ultimately show ?thesis by simp
qed

lemma examined_scan_lines:
  "examined (scan_lines tbl ls) =
     map Suc (filter (\<lambda>k. reaches_match (scan_lines tbl (take k ls)) (ls ! k)) [0..<length ls])"
proof (induction ls rule: rev_induct)
  case Nil
  show ?case by (simp add: scan_lines_def init_state_def)
next
  case (snoc l xs)
  define P where "P ys k = reaches_match (scan_lines tbl (take k ys)) (ys ! k)" for ys k
  have "map (\<lambda>k. Suc k) (filter (P (xs @ [l])) [0..<length (xs @ [l])]) =
        map (\<lambda>k. Suc k) (filter (P xs) [0..<length xs]) @
          (if P (xs @ [l]) (length xs) then [Suc (length xs)] else [])"
    by (rule scan_trace_snoc) (simp_all add: P_def nth_append)
  moreover have "P (xs @ [l]) (length xs) = reaches_match (scan_lines tbl xs) l"
    by (simp add: P_def)
  moreover have "examined (scan_lines tbl xs) = map Suc (filter (P xs) [0..<length xs])"
    unfolding P_def by (rule snoc.IH)
  ultimately have "examined (scan_lines tbl (xs @ [l])) =
      map Suc (filter (P (xs @ [l])) [0..<length (xs @ [l])])"
    by (simp only: scan_lines_snoc examined_scan_line)
  then show ?case unfolding P_def .
qed

lemma issues_scan_lines:
  "issues (scan_lines tbl ls) =
     map (\<lambda>k. (Suc k, take 120 (strip (ls ! k))))
       (filter (\<lambda>k. reaches_match (scan_lines tbl (take k ls)) (ls ! k) \<and> is_exec tbl (strip (ls ! k)))
          [0..<length ls])"
proof (induction ls rule: rev_induct)
  case Nil
  show ?case by (simp add: scan_lines_def init_state_def)
next
  case (snoc l xs)
  define P where "P ys k =
    (reaches_match (scan_lines tbl (take k ys)) (ys ! k) \<and> is_exec tbl (strip (ys ! k)))" for ys k
  define h where "h ys k = (Suc k, take 120 (strip (ys ! k)))" for ys :: "pystr list" and k
  have "map (h (xs @ [l])) (filter (P (xs @ [l])) [0..<length (xs @ [l])]) =
        map (h xs) (filter (P xs) [0..<length xs]) @
          (if P (xs @ [l]) (length xs) then [h (xs @ [l]) (length xs)] else [])"
    by (rule scan_trace_snoc) (simp_all add: P_def h_def nth_append)
  moreover have "P (xs @ [l]) (length xs) = (reaches_match (scan_lines tbl xs) l \<and> is_exec tbl (strip l))"
    by (simp add: P_def)
  moreover have "h (xs @ [l]) (length xs) = (Suc (length xs), take 120 (strip l))"
    by (simp add: h_def)
  moreover have "issues (scan_lines tbl xs) = map (h xs) (filter (P xs) [0..<length xs])"
    unfolding P_def h_def by (rule snoc.IH)
  ultimately have "issues (scan_lines tbl (xs @ [l])) =
      map (h (xs @ [l])) (filter (P (xs @ [l])) [0..<length (xs @ [l])])"
    by (simp only: scan_lines_snoc issues_scan_line)
  then show ?case unfolding P_def h_def .
qed

lemma depth_scan_lines:
  "brace_depth (scan_lines tbl ls) =
     (\<Sum>k\<leftarrow>[0..<length ls].
        if consumed (scan_lines tbl (take k ls)) (ls ! k) then 0
        else int (count_list (mask_strings (strip (ls ! k))) 123)
           - int (count_list (mask_strings (strip (ls ! k))) 125))"
proof (induction ls rule: rev_induct)
  case Nil
  show ?case by (simp add: scan_lines_def init_state_def)
next
  case (snoc l xs)
  define d where "d ys k =
    (if consumed (scan_lines tbl (take k ys)) (ys ! k) then 0
     else int (count_list (mask_strings (strip (ys ! k))) 123)
        - int (count_list (mask_strings (strip (ys ! k))) 125))" for ys k
  have m: "map (d (xs @ [l])) [0..<length xs] = map (d xs) [0..<length xs]"
    by (rule map_cong) (auto simp: d_def nth_append)
  have "(\<Sum>k\<leftarrow>[0..<length (xs @ [l])]. d (xs @ [l]) k) =
             (\<Sum>k\<leftarrow>[0..<length xs]. d xs k) + d (xs @ [l]) (length xs)"
    by (simp add: m)
  moreover have "d (xs @ [l]) (length xs) =
      (if consumed (scan_lines tbl xs) l then 0
       else int (count_list (mask_strings (strip l)) 123) - int (count_list (mask_strings (strip l)) 125))"
    by (simp add: d_def)
  moreover have "brace_depth (scan_lines tbl xs) = (\<Sum>k\<leftarrow>[0..<length xs]. d xs k)"
    unfolding d_def by (rule snoc.IH)
  ultimately have "brace_depth (scan_lines tbl (xs @ [l])) = (\<Sum>k\<leftarrow>[0..<length (xs @ [l])]. d (xs @ [l]) k)"
    by (simp only: scan_lines_snoc depth_scan_line)
  then show ?case unfolding d_def .
qed

lemmas eval_defs =
  py_def scan_content_def scan_lines_def init_state_def scan_line_def Let_def strip_def
  is_space_def is_exec_def exec_patterns_def lit_def is_word_def ascii_alnum_def

section \<open>The report\<close>

lemma fold_print_issues:
  "fold (\<lambda>(line_no, text) acc. print acc (py ''  Line '' @ str_nat line_no @ py '': '' @ text)) iss acc0 =
   acc0 @ concat (map (\<lambda>l. l @ [10]) (map issue_line iss))"
  by (induction iss arbitrary: acc0) (auto simp: print_def issue_line_def)

lemma report_file_block:
  "report_file out path iss = out @ (if iss \<noteq> [] then file_block path iss else [])"
  unfolding report_file_def fold_print_issues
  by (simp add: file_block_def header_line_def print_def)

lemma file_loop_readable:
  "\<forall>p\<in>set ps. rd p = Inr (content p) \<Longrightarrow>
   file_loop tbl rd out ps =
     Completed (out @ concat (map (\<lambda>p. file_block p (issues (scan_content tbl (content p))))
        (filter (\<lambda>p. issues (scan_content tbl (content p)) \<noteq> []) ps)))"
  by (induction ps arbitrary: out) (auto simp: report_file_block)

lemma file_loop_aborts:
  "p \<in> set ps \<Longrightarrow> rd p = Inl e \<Longrightarrow> \<exists>out' e'. file_loop tbl rd out ps = Aborted out' e'"
  by (induction ps arbitrary: out) (auto split: sum.splits)

lemma issue_text_length: "list_all (\<lambda>iss. length (snd iss) \<le> 120) (issues (scan_lines tbl ls))"
  by (simp add: issues_scan_lines list_all_iff)

section \<open>The order of the directory listings\<close>

lemma swift_files_discovered: "swift_files root = discovered src_dir root"
  by (simp add: swift_files_def discovered_def)

lemma discovered_Directory:
  "mset (discovered dir (Directory es)) = (\<Sum>e\<leftarrow>es. contrib dir e)"
proof -
  let ?g = "\<lambda>(r, dirs, files). map (path_join r) (filter (\<lambda>f. endswith f (py ''.swift'')) files)"
  have files: "mset (map (path_join dir) (filter (\<lambda>f. endswith f (py ''.swift''))
                  (map fst (filter (\<lambda>e. \<not> is_dir (snd e)) es)))) =
        (\<Sum>e\<leftarrow>es. if is_dir (snd e) then {#}
                  else if endswith (fst e) (py ''.swift'') then {#path_join dir (fst e)#} else {#})"
    by (induction es) auto
  have dirs: "mset (concat (map ?g (concat (map (\<lambda>e. if is_dir (snd e)
                  then walk (path_join dir (fst e)) (snd e) else []) es)))) =
        (\<Sum>e\<leftarrow>es. if is_dir (snd e) then mset (discovered (path_join dir (fst e)) (snd e)) else {#})"
    by (induction es) (auto simp: discovered_def)
  have "(\<Sum>e\<leftarrow>es. contrib dir e) =
        (\<Sum>e\<leftarrow>es. if is_dir (snd e) then {#}
                  else if endswith (fst e) (py ''.swift'') then {#path_join dir (fst e)#} else {#}) +
        (\<Sum>e\<leftarrow>es. if is_dir (snd e) then mset (discovered (path_join dir (fst e)) (snd e)) else {#})"
    by (induction es) (auto simp: contrib_def)
  then show ?thesis
    using files dirs by (simp add: discovered_def)
qed

lemma same_tree_discovered:
  "same_tree a b \<Longrightarrow> is_dir a = is_dir b \<and> (\<forall>dir. mset (discovered dir a) = mset (discovered dir b))"
proof (induction rule: same_tree.induct)
  case same_File
  show ?case by simp
next
  case same_Unreadable
  show ?case by simp
next
  case (same_Directory es es'' es')
  have "map (contrib dir) es = map (contrib dir) es''" for dir
    using same_Directory(1)
    by (induction rule: list_all2_induct) (auto simp: contrib_def)
  moreover have "(\<Sum>e\<leftarrow>es''. contrib dir e) = (\<Sum>e\<leftarrow>es'. contrib dir e)" for dir
  proof -
    have "mset (map (contrib dir) es'') = mset (map (contrib dir) es')"
      using same_Directory(2) by simp
    then show ?thesis by (metis sum_mset_sum_list)
  qed
  ultimately show ?case by (simp add: discovered_Directory)
qed

lemma sort_mset: "mset xs = mset ys \<Longrightarrow> sort xs = sort ys"
  by (metis sorted_list_of_multiset_mset)

lemma same_tree_a_b: "same_tree tree_a tree_b"
proof -
  have sub: "same_tree (Directory [(py ''a.swift'', File), (py ''notes.txt'', File)])
                       (Directory [(py ''notes.txt'', File), (py ''a.swift'', File)])"
    by (rule same_Directory [where es'' = "[(py ''a.swift'', File), (py ''notes.txt'', File)]"])
       (simp_all add: same_File)
  show ?thesis
    unfolding tree_a_def tree_b_def
    by (rule same_Directory [where es'' = "[(py ''b.swift'', File),
          (py ''sub'', Directory [(py ''notes.txt'', File), (py ''a.swift'', File)]),
          (py ''a.swift'', File)]"])
       (simp_all add: same_File sub)
qed

section \<open>The claims about the scan\<close>

text \<open>
  C1 (as amended). For every file and every line of it, the line reaches the
  executable-statement match if and only if it contains no block-comment-close token,
  the tracker is not inside a block comment and the line opens none, the trimmed line
  is no full-line \<open>//\<close> comment and is not blank, and the brace depth before the line is
  exactly 0. Here \<open>ls ! k\<close> is line \<open>k + 1\<close> and \<open>scan_lines tbl (take k ls)\<close> is the state
  of the loop before it.
\<close>

theorem classified_iff_top_level_code:
  "k < length ls \<Longrightarrow>
   (Suc k \<in> set (examined (scan_lines tbl ls))) =
   (\<not> contains (py ''*/'') (ls ! k) \<and>
    \<not> in_multiline_comment (scan_lines tbl (take k ls)) \<and>
    \<not> contains (py ''/*'') (ls ! k) \<and>
    \<not> startswith (strip (ls ! k)) (py ''//'') \<and>
    strip (ls ! k) \<noteq> [] \<and>
    brace_depth (scan_lines tbl (take k ls)) = 0)"
  by (auto simp: examined_scan_lines reaches_match_def consumed_def Let_def
      close_token_strip open_token_strip)

theorem classified_iff_top_level_code_witness:
  "(1::nat) < length [close_token_line, py ''print(1)''] \<and>
   Suc 1 \<in> set (examined (scan_lines no_tbl [close_token_line, py ''print(1)'']))"
  using classified_iff_top_level_code [of 1 "[close_token_line, py ''print(1)'']" no_tbl]
  by (simp add: close_token_line_def eval_defs)

text \<open>
  As first stated, without the condition on the close token, the equivalence fails:
  the one-line file \<open>print("*/")\<close> is outside every block comment, is no \<open>//\<close> comment, is
  not blank and stands at depth 0, and its text matches the first pattern; yet the
  loop leaves the line at \<open>continue\<close> and never matches it.
\<close>

theorem close_token_line_not_classified:
  "strip close_token_line = close_token_line \<and>
   \<not> in_multiline_comment (scan_lines no_tbl (take 0 [close_token_line])) \<and>
   \<not> contains (py ''/*'') close_token_line \<and>
   \<not> in_multiline_comment (scan_lines no_tbl [close_token_line]) \<and>
   \<not> startswith close_token_line (py ''//'') \<and>
   close_token_line \<noteq> [] \<and>
   brace_depth (scan_lines no_tbl (take 0 [close_token_line])) = 0 \<and>
   is_exec no_tbl close_token_line \<and>
   Suc 0 \<notin> set (examined (scan_lines no_tbl [close_token_line])) \<and>
   issues (scan_lines no_tbl [close_token_line]) = []"
  by (simp add: close_token_line_def eval_defs)

text \<open>
  C2. The scan of the seven-line scenario records exactly one issue, line 7 with text
  \<open>print("top level")\<close>; line 4 would match but stands at depth 2. Stated for the
  indented file of the specification and for the same lines without indentation.
\<close>

theorem scenario_reports_line_7:
  "length (split_nl scenario) = 7 \<and>
   issues (scan_content tbl scenario) = [(7, py ''print(\"top level\")'')] \<and>
   report_file [] path (issues (scan_content tbl scenario)) =
     py ''*** ISSUES IN: '' @ path @ py '' ***\<newline>  Line 7: print(\"top level\")\<newline>'' \<and>
   strip (split_nl scenario ! 3) = py ''print(\"inside\")'' \<and>
   is_exec tbl (py ''print(\"inside\")'') \<and>
   brace_depth (scan_lines tbl (take 3 (split_nl scenario))) = 2 \<and>
   issues (scan_lines tbl scenario_lines) = [(7, py ''print(\"top level\")'')] \<and>
   brace_depth (scan_lines tbl (take 3 scenario_lines)) = 2"
  by (simp add: scenario_def scenario_lines_def report_file_def print_def str_nat_digit eval_defs)

text \<open>
  C3 (as amended). The depth after a file is the sum, over the lines that are not
  skipped (as part of a block comment, for a close or open token, as a full-line \<open>//\<close>
  comment or as blank), of the opening minus the closing braces of the trimmed line after
  string masking; and a span from a quote to the next quote, after a prefix with an even
  number of quotes, is masked whatever braces it holds.
\<close>

theorem depth_counts_masked_braces:
  "brace_depth (scan_lines tbl ls) =
     (\<Sum>k\<leftarrow>[0..<length ls].
        if contains (py ''*/'') (ls ! k) \<or> in_multiline_comment (scan_lines tbl (take k ls)) \<or>
           contains (py ''/*'') (ls ! k) \<or> startswith (strip (ls ! k)) (py ''//'') \<or> strip (ls ! k) = []
        then 0
        else int (count_list (mask_strings (strip (ls ! k))) 123)
           - int (count_list (mask_strings (strip (ls ! k))) 125)) \<and>
   (even (count_list a 34) \<and> 34 \<notin> set body \<longrightarrow>
      mask_strings (a @ [34] @ body @ [34] @ b) = mask_strings a @ [34, 34] @ mask_strings b)"
proof
  show "brace_depth (scan_lines tbl ls) =
     (\<Sum>k\<leftarrow>[0..<length ls].
        if contains (py ''*/'') (ls ! k) \<or> in_multiline_comment (scan_lines tbl (take k ls)) \<or>
           contains (py ''/*'') (ls ! k) \<or> startswith (strip (ls ! k)) (py ''//'') \<or> strip (ls ! k) = []
        then 0
        else int (count_list (mask_strings (strip (ls ! k))) 123)
           - int (count_list (mask_strings (strip (ls ! k))) 125))"
    using depth_scan_lines [of tbl ls]
    by (simp add: consumed_def Let_def close_token_strip open_token_strip)
next
  show "even (count_list a 34) \<and> 34 \<notin> set body \<longrightarrow>
      mask_strings (a @ [34] @ body @ [34] @ b) = mask_strings a @ [34, 34] @ mask_strings b"
  proof
    assume h: "even (count_list a 34) \<and> 34 \<notin> set body"
    then have "mask_strings (a @ (34 # body @ 34 # b)) = mask_strings a @ mask_strings (34 # body @ 34 # b)"
      by (intro mask_strings_append) simp
    moreover have "mask_strings (34 # body @ 34 # b) = 34 # 34 # mask_strings b"
      using h by (intro mask_strings_span) simp
    ultimately show "mask_strings (a @ [34] @ body @ [34] @ b) = mask_strings a @ [34, 34] @ mask_strings b"
      by simp
  qed
qed

theorem depth_counts_masked_braces_witness:
  "even (count_list (py ''f(\"a\", '') 34) \<and> 34 \<notin> set (py ''{{'') \<and>
   mask_strings (py ''f(\"a\", '' @ [34] @ py ''{{'' @ [34] @ py '') {'') = py ''f(\"\", \"\") {'' \<and>
   brace_depth (scan_lines no_tbl [py ''f(\"a\", \"{{\") {'', py ''// }'', py ''}'']) = 0"
  using depth_counts_masked_braces [of no_tbl "[py ''f(\"a\", \"{{\") {'', py ''// }'', py ''}'']"
      "py ''f(\"a\", ''" "py ''{{''" "py '') {''"]
  by (simp add: eval_defs)

text \<open>
  As first stated, for every comment, the claim fails: the brace in the trailing
  comment of \<open>let x = 1 // {\<close> raises the depth to 1, since only a line that starts with
  \<open>//\<close> is skipped.
\<close>

theorem trailing_comment_brace_counted:
  "\<not> startswith (strip trailing_comment_line) (py ''//'') \<and>
   contains (py ''// {'') trailing_comment_line \<and>
   brace_depth (scan_lines no_tbl [trailing_comment_line]) = 1"
  by (simp add: trailing_comment_line_def eval_defs)

text \<open>
  C4. A line that contains a block-comment-close token leaves the state as it was but
  for the comment flag, which is off afterwards: no match, no issue, no change of depth.
\<close>

theorem close_token_consumes_line:
  "contains (py ''*/'') line \<Longrightarrow> scan_line tbl st (i, line) = st\<lparr>in_multiline_comment := False\<rparr>"
  by (simp add: scan_line_def Let_def close_token_strip)

theorem close_token_consumes_line_witness:
  "contains (py ''*/'') note_line \<and>
   scan_line no_tbl init_state (1, note_line) = init_state \<and>
   count_list (mask_strings (strip note_line)) 123 = 1 \<and>
   brace_depth (scan_lines no_tbl [note_line]) = 0"
  using close_token_consumes_line [of note_line no_tbl init_state 1]
  by (simp add: note_line_def eval_defs)

text \<open>
  C5. For every line, matching the patterns against the trimmed and masked line, as the
  specification has it, gives the decision of the code, which matches the trimmed line
  unmasked.
\<close>

theorem masked_and_unmasked_match_agree:
  "classify_masked tbl line = is_exec tbl (strip line)"
  by (simp add: classify_masked_def is_exec_mask_strings)

text \<open>
  C7. The line \<open>let s = "{"\<close>, processed at depth 0 outside a comment, is examined and
  changes neither the depth nor the issues: the brace is gone after masking and no
  pattern matches.
\<close>

theorem brace_in_string_line:
  "brace_depth st = 0 \<Longrightarrow> \<not> in_multiline_comment st \<Longrightarrow>
   scan_line tbl st (i, brace_string_line) = st\<lparr>examined := examined st @ [i]\<rparr> \<and>
   count_list (strip brace_string_line) 123 = 1 \<and>
   mask_strings (strip brace_string_line) = py ''let s = \"\"'' \<and>
   count_list (mask_strings (strip brace_string_line)) 123 = 0 \<and>
   \<not> is_exec tbl (strip brace_string_line)"
  by (simp add: brace_string_line_def eval_defs)

theorem brace_in_string_line_witness:
  "brace_depth init_state = 0 \<and> \<not> in_multiline_comment init_state \<and>
   brace_depth (scan_line no_tbl init_state (1, brace_string_line)) = 0 \<and>
   issues (scan_line no_tbl init_state (1, brace_string_line)) = []"
  using brace_in_string_line [of init_state no_tbl 1]
  by (simp add: init_state_def)

text \<open>
  C10. Every recorded issue belongs to a line of the file whose depth before the line
  was exactly 0, and carries its trimmed text cut to 120 characters; a line reached at a
  negative depth is neither examined nor reported. The scan is a total function, so it
  completes on unbalanced input as on any other.
\<close>

theorem issues_only_at_depth_zero:
  "(\<forall>n text. (n, text) \<in> set (issues (scan_lines tbl ls)) \<longrightarrow>
      0 < n \<and> n \<le> length ls \<and> text = take 120 (strip (ls ! (n - 1))) \<and>
      brace_depth (scan_lines tbl (take (n - 1) ls)) = 0) \<and>
   (\<forall>k. k < length ls \<and> brace_depth (scan_lines tbl (take k ls)) < 0 \<longrightarrow>
      Suc k \<notin> set (examined (scan_lines tbl ls)) \<and> Suc k \<notin> fst ` set (issues (scan_lines tbl ls)))"
  by (auto simp: issues_scan_lines examined_scan_lines reaches_match_def)

theorem issues_only_at_depth_zero_witness:
  "brace_depth (scan_lines no_tbl (take 1 unbalanced_lines)) = - 1 \<and>
   is_exec no_tbl (strip (unbalanced_lines ! 1)) \<and>
   Suc 1 \<notin> set (examined (scan_lines no_tbl unbalanced_lines)) \<and>
   brace_depth (scan_lines no_tbl (take 3 unbalanced_lines)) = 0 \<and>
   issues (scan_lines no_tbl unbalanced_lines) = [(4, py ''print(\"y\")'')]"
  using issues_only_at_depth_zero [of no_tbl unbalanced_lines]
  by (simp add: unbalanced_lines_def eval_defs)

section \<open>The claims about the run\<close>

text \<open>
  C6 (as amended). If the root directory cannot be read (its listing fails, or the path
  is no directory), the run does not fail: the walk yields nothing and the run completes
  with the report of an empty tree, an empty line and the completion marker. A discovered
  file that cannot be opened or read does abort the run with its error.
\<close>

theorem unreadable_root_is_empty_tree:
  "script tbl Unreadable rd = Completed ([10] @ marker_line @ [10]) \<and>
   script tbl File rd = Completed ([10] @ marker_line @ [10]) \<and>
   (p \<in> set (swift_files root) \<and> rd p = Inl e \<longrightarrow> (\<exists>out e'. script tbl root rd = Aborted out e'))"
proof -
  have "p \<in> set (swift_files root) \<and> rd p = Inl e \<longrightarrow> (\<exists>out e'. script tbl root rd = Aborted out e')"
  proof
    assume h: "p \<in> set (swift_files root) \<and> rd p = Inl e"
    then have "p \<in> set (sort (swift_files root))" by simp
    from file_loop_aborts [OF this, of rd e tbl "[]"] h
    show "\<exists>out e'. script tbl root rd = Aborted out e'"
      by (auto simp: script_def)
  qed
  then show ?thesis
    by (simp add: script_def swift_files_def print_def marker_line_def py_def)
qed

theorem unreadable_root_is_empty_tree_witness:
  "py ''weather/Sources/b.swift'' \<in> set (swift_files tree_a) \<and>
   nothing_opens (py ''weather/Sources/b.swift'') = Inl OSError \<and>
   script no_tbl tree_a nothing_opens = Aborted [] OSError"
  using unreadable_root_is_empty_tree [of no_tbl nothing_opens "py ''weather/Sources/b.swift''" tree_a OSError]
  by (simp add: tree_a_def nothing_opens_def swift_files_def src_dir_def path_join_def endswith_def
      script_def py_def)

text \<open>
  As first stated the claim fails: with an unreadable root and a file system on which
  nothing opens, the run completes normally.
\<close>

theorem unreadable_root_run_completes:
  "script no_tbl Unreadable nothing_opens = Completed (py ''\<newline>--- Script complete ---\<newline>'')"
  by (simp add: script_def swift_files_def print_def py_def)

text \<open>
  C8 (as amended). When every discovered file can be read, the output is, for each
  file with at least one issue, in sorted order of the paths, a header line
  \<open>*** ISSUES IN: <path> ***\<close> and one line \<open>  Line <n>: <text>\<close> per issue, nothing for
  a file without issues, and then an empty line and the completion marker line, printed
  once; every issue text has at most 120 characters.
\<close>

theorem report_format:
  assumes "\<forall>p \<in> set (swift_files root). rd p = Inr (content p)"
  shows "script tbl root rd =
     Completed (concat (map (\<lambda>p. file_block p (issues (scan_content tbl (content p))))
                  (filter (\<lambda>p. issues (scan_content tbl (content p)) \<noteq> []) (sort (swift_files root))))
                @ [10] @ marker_line @ [10]) \<and>
     list_all (\<lambda>iss. length (snd iss) \<le> 120) (issues (scan_content tbl c))"
proof -
  from assms have "\<forall>p \<in> set (sort (swift_files root)). rd p = Inr (content p)" by simp
  from file_loop_readable [OF this, of tbl "[]"] show ?thesis
    by (simp add: script_def print_def marker_line_def py_def scan_content_def issue_text_length)
qed

theorem report_format_witness:
  "swift_files tree_a =
     [py ''weather/Sources/b.swift'', py ''weather/Sources/a.swift'', py ''weather/Sources/sub/a.swift''] \<and>
   list_all (\<lambda>p. every_file_prints p = Inr (py ''print(1)'')) (swift_files tree_a) \<and>
   script no_tbl tree_a every_file_prints =
     Completed (py ''*** ISSUES IN: weather/Sources/a.swift ***\<newline>  Line 1: print(1)\<newline>*** ISSUES IN: weather/Sources/b.swift ***\<newline>  Line 1: print(1)\<newline>*** ISSUES IN: weather/Sources/sub/a.swift ***\<newline>  Line 1: print(1)\<newline>\<newline>--- Script complete ---\<newline>'')"
  using report_format [of tree_a every_file_prints "\<lambda>p. py ''print(1)''" no_tbl "[]"]
  by (simp add: tree_a_def every_file_prints_def swift_files_def src_dir_def path_join_def endswith_def
      file_block_def header_line_def issue_line_def marker_line_def str_nat_digit eval_defs)

text \<open>
  As first stated, with nothing between the last block and the marker, the claim fails:
  for an empty tree the output is an empty line and then the marker line, not the marker
  line alone.
\<close>

theorem empty_tree_output:
  "script no_tbl (Directory []) nothing_opens = Completed (py ''\<newline>--- Script complete ---\<newline>'') \<and>
   py ''\<newline>--- Script complete ---\<newline>'' \<noteq> py ''--- Script complete ---\<newline>''"
  by (simp add: script_def swift_files_def print_def py_def)

text \<open>
  C9. The run is a function of the directory tree and of the content of the files. The
  one thing that may differ between two runs over an unmodified tree, the order in which
  each directory lists its entries, does not change the result: the paths are sorted
  before the files are scanned.
\<close>

theorem report_independent_of_listing_order:
  "same_tree root root' \<Longrightarrow> script tbl root rd = script tbl root' rd"
proof -
  assume "same_tree root root'"
  then have "mset (swift_files root) = mset (swift_files root')"
    using same_tree_discovered by (simp add: swift_files_discovered)
  then have "sort (swift_files root) = sort (swift_files root')" by (rule sort_mset)
  then show ?thesis by (simp add: script_def)
qed

theorem report_independent_of_listing_order_witness:
  "same_tree tree_a tree_b \<and>
   swift_files tree_a \<noteq> swift_files tree_b \<and>
   script no_tbl tree_a every_file_prints = script no_tbl tree_b every_file_prints"
  using report_independent_of_listing_order [OF same_tree_a_b, of no_tbl every_file_prints] same_tree_a_b
  by (simp add: tree_a_def tree_b_def swift_files_def src_dir_def path_join_def endswith_def py_def)

end
